theory Spec2Isabelle
  imports Main
begin

section \<open>Values, objects and the heap\<close>

text \<open>
  The class \<^verbatim>\<open>TransitionX\<close> of \<^verbatim>\<open>src/src/transitionx.js\<close> keeps a state object, a registry
  of transition functions and two arrays of state snapshots. Every snapshot is made with
  an object spread \<^verbatim>\<open>{ ...x }\<close>, which builds a new object, and several claims are about
  which object a reference points to. Objects therefore live in an explicit heap and are
  named by their address.

  A JavaScript value is a primitive, a reference to a heap object, a function, or the
  intrinsic object \<^verbatim>\<open>Object.prototype\<close>. Numbers are restricted to integers. A function
  value is named by a \<open>fnref\<close>; what the function does when called is given by an
  environment (see \<open>jsfun\<close> below).
\<close>

type_synonym addr = nat

datatype fnref = UserFn string | NativeFn string

datatype val =
    VUndefined
  | VNull
  | VBool bool
  | VNum int
  | VStr string
  | VRef addr
  | VFun fnref
  | VObjectPrototype

text \<open>
  An object is its own string-keyed properties. The heap is the list of all objects
  allocated so far; a new object gets the next free address, so it differs from every
  object that already exists.
\<close>

type_synonym obj = "string \<rightharpoonup> val"

type_synonym heap = "obj list"

text \<open>What a \<^verbatim>\<open>throw\<close> carries: \<^verbatim>\<open>new Error(msg)\<close>, an engine \<^verbatim>\<open>TypeError\<close>, or any other value.\<close>

datatype exn = JsError string | JsTypeError | Thrown val

text \<open>\<^verbatim>\<open>{ ...x }\<close>: a new object holding the own properties of the object at \<open>a\<close>.\<close>

definition spread :: "addr \<Rightarrow> heap \<Rightarrow> addr \<times> heap" where
  "spread a h = (length h, h @ [h ! a])"

text \<open>
  In-place mutation of the top-level properties of the object at \<open>a\<close>: assignments
  \<^verbatim>\<open>x.k = v\<close> and \<^verbatim>\<open>delete x.k\<close>, in any number, amount to a function on its properties.
\<close>

definition writeObj :: "addr \<Rightarrow> (obj \<Rightarrow> obj) \<Rightarrow> heap \<Rightarrow> heap" where
  "writeObj a f h = h[a := f (h ! a)]"

section \<open>The manager\<close>

text \<open>
  The fields of a \<^verbatim>\<open>TransitionX\<close> instance. \<open>state\<close> and \<open>transitions\<close> are references;
  the two stacks are arrays of references, most recent last (\<^verbatim>\<open>push\<close> appends,
  \<^verbatim>\<open>pop\<close> removes the last element).

  \<^verbatim>\<open>log\<close> writes to the console when \<open>debug\<close> is set and touches neither the instance
  nor any object a reference of the instance points to. The console is not part of the
  model, and the copies \<^verbatim>\<open>{ ...this.state }\<close> that are built only to be printed are
  never stored, so they are not allocated here.
\<close>

record manager =
  state :: addr
  transitions :: addr
  debug :: bool
  stateHistory :: "addr list"
  redoStack :: "addr list"

text \<open>
  \<^verbatim>\<open>constructor(initialState = {}, transitions = {}, debug = false)\<close>. An argument is a
  reference to an object, or is omitted (\<open>None\<close>), in which case the default \<^verbatim>\<open>{}\<close> is
  spread.
\<close>

definition spreadArg :: "addr option \<Rightarrow> heap \<Rightarrow> addr \<times> heap" where
  "spreadArg arg h = (case arg of None \<Rightarrow> (length h, h @ [Map.empty]) | Some a \<Rightarrow> spread a h)"

definition constructor :: "addr option \<Rightarrow> addr option \<Rightarrow> bool \<Rightarrow> heap \<Rightarrow> manager \<times> heap" where
  "constructor initialState transitionsArg debugArg h =
     (let (s, h1) = spreadArg initialState h;
          (t, h2) = spreadArg transitionsArg h1
      in (\<lparr>state = s, transitions = t, debug = debugArg, stateHistory = [], redoStack = []\<rparr>, h2))"

text \<open>\<^verbatim>\<open>saveState\<close>: push a copy of the state, clear the redo stack.\<close>

definition saveState :: "manager \<Rightarrow> heap \<Rightarrow> manager \<times> heap" where
  "saveState m h =
     (let (c, h1) = spread (state m) h
      in (m\<lparr>stateHistory := stateHistory m @ [c], redoStack := []\<rparr>, h1))"

text \<open>
  \<^verbatim>\<open>rollbackState\<close> and \<^verbatim>\<open>redoState\<close> return the exception thrown, if any, together with
  the instance and the heap as the call leaves them.
\<close>

definition rollbackState :: "manager \<Rightarrow> heap \<Rightarrow> exn option \<times> manager \<times> heap" where
  "rollbackState m h =
     (if length (stateHistory m) > 0 then
        (let previousState = last (stateHistory m);
             m1 = m\<lparr>stateHistory := butlast (stateHistory m)\<rparr>;
             (c, h1) = spread (state m1) h;
             m2 = m1\<lparr>redoStack := redoStack m1 @ [c]\<rparr>;
             (s, h2) = spread previousState h1
         in (None, m2\<lparr>state := s\<rparr>, h2))
      else (Some (JsError ''No saved state to rollback to.''), m, h))"

definition redoState :: "manager \<Rightarrow> heap \<Rightarrow> exn option \<times> manager \<times> heap" where
  "redoState m h =
     (if length (redoStack m) > 0 then
        (let nextState = last (redoStack m);
             m1 = m\<lparr>redoStack := butlast (redoStack m)\<rparr>;
             (c, h1) = spread (state m1) h;
             m2 = m1\<lparr>stateHistory := stateHistory m1 @ [c]\<rparr>;
             (s, h2) = spread nextState h1
         in (None, m2\<lparr>state := s\<rparr>, h2))
      else (Some (JsError ''No state to redo.''), m, h))"

section \<open>Functions and asynchronous calls\<close>

text \<open>
  A call returns a plain value, returns a pending computation (a promise that is settled
  later, by a timer for instance), or throws. A pending computation is the function that
  is run when it settles: it may change the store and then fulfils (\<open>Inr\<close>) or rejects
  (\<open>Inl\<close>).
\<close>

datatype 's result = Value val | Pending "'s \<Rightarrow> 's \<times> (exn + val)"

datatype 's outcome = Returned "'s result" | Threw exn

text \<open>
  The promise of an \<^verbatim>\<open>async\<close> function once the call has returned: already rejected
  (the body threw before its first \<^verbatim>\<open>await\<close>), or suspended at \<^verbatim>\<open>await\<close> on a result;
  \<open>Fulfilled\<close> is reached only when the function is resumed.
\<close>

datatype 's promise = Fulfilled | Rejected exn | Awaiting "'s result"

text \<open>
  A function takes \<^verbatim>\<open>this\<close>, its arguments and the heap. The environment says what every
  function value does: the transition functions of the embedding application and the
  built-ins of the engine. A transition function works on the objects it is given; it has
  no access to the fields of the instance.
\<close>

type_synonym jsfun = "val \<Rightarrow> val list \<Rightarrow> heap \<Rightarrow> heap \<times> heap outcome"

type_synonym env = "fnref \<Rightarrow> jsfun"

text \<open>
  Property lookup \<^verbatim>\<open>o[name]\<close> on an object made by a spread or an object literal: an own
  property, or else a property of \<^verbatim>\<open>Object.prototype\<close>, or else \<^verbatim>\<open>undefined\<close>. The
  properties of \<^verbatim>\<open>Object.prototype\<close> are those of ECMAScript: eleven methods and the
  accessor \<^verbatim>\<open>__proto__\<close>, which on such an object yields \<^verbatim>\<open>Object.prototype\<close> itself.
\<close>

definition objectPrototypeMethods :: "string list" where
  "objectPrototypeMethods =
     [''constructor'', ''__defineGetter__'', ''__defineSetter__'', ''hasOwnProperty'',
      ''__lookupGetter__'', ''__lookupSetter__'', ''isPrototypeOf'',
      ''propertyIsEnumerable'', ''toString'', ''valueOf'', ''toLocaleString'']"

definition objectPrototype :: "string \<rightharpoonup> val" where
  "objectPrototype name =
     (if List.member objectPrototypeMethods name then Some (VFun (NativeFn name))
      else if name = ''__proto__'' then Some VObjectPrototype
      else None)"

definition getProp :: "heap \<Rightarrow> addr \<Rightarrow> string \<Rightarrow> val" where
  "getProp h a name =
     (case (h ! a) name of
        Some v \<Rightarrow> v
      | None \<Rightarrow> (case objectPrototype name of Some v \<Rightarrow> v | None \<Rightarrow> VUndefined))"

text \<open>The test of \<^verbatim>\<open>if (v)\<close>.\<close>

fun truthy :: "val \<Rightarrow> bool" where
  "truthy VUndefined = False"
| "truthy VNull = False"
| "truthy (VBool b) = b"
| "truthy (VNum n) = (n \<noteq> 0)"
| "truthy (VStr s) = (s \<noteq> [])"
| "truthy (VRef a) = True"
| "truthy (VFun f) = True"
| "truthy VObjectPrototype = True"

text \<open>\<^verbatim>\<open>v(...)\<close> with a given \<^verbatim>\<open>this\<close>: calling a value that is not a function throws.\<close>

definition callVal :: "env \<Rightarrow> val \<Rightarrow> jsfun" where
  "callVal env v this args h =
     (case v of VFun f \<Rightarrow> env f this args h | _ \<Rightarrow> (h, Threw JsTypeError))"

text \<open>
  The handlers \<^verbatim>\<open>catch (error) { context.log(`... ${error.message}`); throw error; }\<close>:
  the message is built before \<^verbatim>\<open>log\<close> looks at \<open>debug\<close>, and reading \<^verbatim>\<open>.message\<close> of
  \<^verbatim>\<open>undefined\<close> or \<^verbatim>\<open>null\<close> throws; any other error is thrown again as it is.
\<close>

fun catchLogRethrow :: "exn \<Rightarrow> exn" where
  "catchLogRethrow (Thrown VUndefined) = JsTypeError"
| "catchLogRethrow (Thrown VNull) = JsTypeError"
| "catchLogRethrow e = e"

definition notDefinedMessage :: "string \<Rightarrow> string" where
  "notDefinedMessage name = ''Transition '' @ [CHR 0x22] @ name @ [CHR 0x22] @ '' is not defined.''"

text \<open>
  The function that \<^verbatim>\<open>createTransition()\<close> returns, called with \<open>name\<close> and \<open>args\<close> on the
  instance as it is at the time of the call. An \<^verbatim>\<open>async\<close> function runs synchronously up
  to its first \<^verbatim>\<open>await\<close>: the lookup, the call of the transition function with
  \<^verbatim>\<open>context.state\<close> and the handling of what it throws all happen before the call returns.
\<close>

definition createTransition ::
  "env \<Rightarrow> string \<Rightarrow> val list \<Rightarrow> manager \<Rightarrow> heap \<Rightarrow> heap \<times> heap promise" where
  "createTransition env name args m h =
     (if truthy (getProp h (transitions m) name) then
        (case callVal env (getProp h (transitions m) name) (VRef (transitions m))
                (VRef (state m) # args) h of
           (h', Threw e) \<Rightarrow> (h', Rejected (catchLogRethrow e))
         | (h', Returned r) \<Rightarrow> (h', Awaiting r))
      else (h, Rejected (JsError (notDefinedMessage name))))"

text \<open>
  Resuming a function suspended at \<^verbatim>\<open>await\<close> inside \<^verbatim>\<open>try\<close>: a plain value or a fulfilled
  computation lets the function run to its end; a rejection goes through the handler.
\<close>

definition resume :: "'s result \<Rightarrow> 's \<Rightarrow> 's \<times> 's promise" where
  "resume r s =
     (case r of
        Value v \<Rightarrow> (s, Fulfilled)
      | Pending k \<Rightarrow>
          (case k s of
             (s', Inr v) \<Rightarrow> (s', Fulfilled)
           | (s', Inl e) \<Rightarrow> (s', Rejected (catchLogRethrow e))))"

section \<open>The wrapper\<close>

text \<open>
  The object \<^verbatim>\<open>wrap\<close> passes to the wrapped function. \<^verbatim>\<open>state: context.state\<close> is
  evaluated when the wrapper is called; the four functions are bound to the instance and
  read its fields when they are called.
\<close>

record capabilities =
  b_state :: val
  b_transition :: "string \<Rightarrow> val list \<Rightarrow> manager \<Rightarrow> heap \<Rightarrow> heap \<times> heap promise"
  b_saveState :: "manager \<Rightarrow> heap \<Rightarrow> manager \<times> heap"
  b_rollbackState :: "manager \<Rightarrow> heap \<Rightarrow> exn option \<times> manager \<times> heap"
  b_redoState :: "manager \<Rightarrow> heap \<Rightarrow> exn option \<times> manager \<times> heap"

type_synonym world = "manager \<times> heap"

type_synonym procedure = "capabilities \<Rightarrow> val list \<Rightarrow> world \<Rightarrow> world \<times> world outcome"

definition wrap :: "env \<Rightarrow> procedure \<Rightarrow> val list \<Rightarrow> world \<Rightarrow> world \<times> world promise" where
  "wrap env fn args w =
     (case fn \<lparr>b_state = VRef (state (fst w)),
               b_transition = createTransition env,
               b_saveState = saveState,
               b_rollbackState = rollbackState,
               b_redoState = redoState\<rparr> args w of
        (w', Threw e) \<Rightarrow> (w', Rejected (catchLogRethrow e))
      | (w', Returned r) \<Rightarrow> (w', Awaiting r))"

section \<open>Sequences of calls\<close>

text \<open>
  What a caller does to an instance between and around the history calls: \<^verbatim>\<open>saveState()\<close>,
  \<^verbatim>\<open>rollbackState()\<close>, and in-place mutation of the current state object (directly, or by
  a transition function that completes synchronously). \<open>runOps\<close> runs such a sequence,
  stops at the first exception, and records the properties of the current state right
  after each rollback.
\<close>

datatype op = Save | Rollback | Mutate "obj \<Rightarrow> obj"

fun isRollback :: "op \<Rightarrow> bool" where
  "isRollback Rollback = True"
| "isRollback _ = False"

fun runOps :: "op list \<Rightarrow> manager \<Rightarrow> heap \<Rightarrow> (exn option \<times> manager \<times> heap) \<times> obj list" where
  "runOps [] m h = ((None, m, h), [])"
| "runOps (Save # ops) m h = (case saveState m h of (m', h') \<Rightarrow> runOps ops m' h')"
| "runOps (Mutate f # ops) m h = runOps ops m (writeObj (state m) f h)"
| "runOps (Rollback # ops) m h =
     (case rollbackState m h of
        (Some e, m', h') \<Rightarrow> ((Some e, m', h'), [])
      | (None, m', h') \<Rightarrow>
          (case runOps ops m' h' of (r, seen) \<Rightarrow> (r, h' ! state m' # seen)))"

text \<open>
  The specification's reading of the same sequence, on plain values: \<open>c\<close> is the current
  state, \<open>saved\<close> the states at the saves not yet matched by a rollback, most recent
  first. A rollback is matched with the most recent unmatched save and is expected to
  restore the state that was current at that save. The result lists the state expected
  after each rollback; it is \<open>None\<close> when some rollback has no save to match.
\<close>

fun expectedRestores :: "op list \<Rightarrow> obj \<Rightarrow> obj list \<Rightarrow> obj list option" where
  "expectedRestores [] c saved = Some []"
| "expectedRestores (Save # ops) c saved = expectedRestores ops c (c # saved)"
| "expectedRestores (Mutate f # ops) c saved = expectedRestores ops (f c) saved"
| "expectedRestores (Rollback # ops) c saved =
     (case saved of
        [] \<Rightarrow> None
      | s # saved' \<Rightarrow> map_option ((#) s) (expectedRestores ops s saved'))"

text \<open>\<open>n\<close> times \<^verbatim>\<open>rollbackState(); redoState()\<close>, stopping at the first exception.\<close>

fun rollbackRedo :: "nat \<Rightarrow> manager \<Rightarrow> heap \<Rightarrow> exn option \<times> manager \<times> heap" where
  "rollbackRedo 0 m h = (None, m, h)"
| "rollbackRedo (Suc n) m h =
     (case rollbackState m h of
        (Some e, m1, h1) \<Rightarrow> (Some e, m1, h1)
      | (None, m1, h1) \<Rightarrow>
          (case redoState m1 h1 of
             (Some e, m2, h2) \<Rightarrow> (Some e, m2, h2)
           | (None, m2, h2) \<Rightarrow> rollbackRedo n m2 h2))"

text \<open>
  The shape of the instances that the constructor and the methods produce: every
  reference is to an allocated object, and the current state object is not one of the
  snapshots.
\<close>

definition wellformed :: "manager \<Rightarrow> heap \<Rightarrow> bool" where
  "wellformed m h \<longleftrightarrow>
     state m < length h \<and>
     list_all (\<lambda>a. a < length h \<and> a \<noteq> state m) (stateHistory m @ redoStack m)"

text \<open>Later mutations, by the caller, of objects it holds: each names the object it writes.\<close>

fun writeAll :: "(addr \<times> (obj \<Rightarrow> obj)) list \<Rightarrow> heap \<Rightarrow> heap" where
  "writeAll [] h = h"
| "writeAll ((a, f) # ws) h = writeAll ws (writeObj a f h)"

section \<open>The instance of the test suite\<close>

text \<open>
  \<^verbatim>\<open>src/src/transitionx.test.js\<close>: the initial state, the registry with \<^verbatim>\<open>eat\<close> and \<^verbatim>\<open>rest\<close>,
  and \<^verbatim>\<open>new TransitionX(initialState, transitions, false)\<close>. In every call the model makes,
  the first argument of a transition function is the reference to the state.
\<close>

definition initialState :: obj where
  "initialState = [''hunger'' \<mapsto> VStr ''hungry'', ''energy'' \<mapsto> VStr ''low'']"

definition testTransitions :: obj where
  "testTransitions = [''eat'' \<mapsto> VFun (UserFn ''eat''), ''rest'' \<mapsto> VFun (UserFn ''rest'')]"

text \<open>What \<^verbatim>\<open>eat\<close> and \<^verbatim>\<open>rest\<close> do to the state object.\<close>

definition setHunger :: "obj \<Rightarrow> obj" where
  "setHunger ob = ob(''hunger'' \<mapsto> VStr ''satisfied'')"

definition setEnergy :: "obj \<Rightarrow> obj" where
  "setEnergy ob = ob(''energy'' \<mapsto> VStr ''high'')"

definition eat :: jsfun where
  "eat this args h =
     (case args of
        VRef a # _ \<Rightarrow> (writeObj a setHunger h, Returned (Value VUndefined))
      | _ \<Rightarrow> (h, Threw JsTypeError))"

definition rest :: jsfun where
  "rest this args h =
     (case args of
        VRef a # _ \<Rightarrow> (h, Returned (Pending (\<lambda>h'. (writeObj a setEnergy h', Inr VUndefined))))
      | _ \<Rightarrow> (h, Threw JsTypeError))"

text \<open>
  Built-ins of \<^verbatim>\<open>Object.prototype\<close>, as ECMAScript defines them, on the values of this
  model. None of them changes an existing object. Where the result is not a value of this
  model (the wrapper object of a primitive, a property key computed by user code or from
  a number) it is left unspecified.

  \<^verbatim>\<open>toString\<close>: the tag of \<^verbatim>\<open>this\<close>.
\<close>

definition objectToString :: jsfun where
  "objectToString this args h =
     (h, Returned (Value (VStr
        (case this of
           VUndefined \<Rightarrow> ''[object Undefined]''
         | VNull \<Rightarrow> ''[object Null]''
         | VBool b \<Rightarrow> ''[object Boolean]''
         | VNum n \<Rightarrow> ''[object Number]''
         | VStr s \<Rightarrow> ''[object String]''
         | VRef a \<Rightarrow> ''[object Object]''
         | VFun f \<Rightarrow> ''[object Function]''
         | VObjectPrototype \<Rightarrow> ''[object Object]''))))"

text \<open>\<^verbatim>\<open>valueOf\<close>: \<^verbatim>\<open>this\<close> as an object; \<^verbatim>\<open>undefined\<close> and \<^verbatim>\<open>null\<close> have none.\<close>

definition objectValueOf :: jsfun where
  "objectValueOf this args h =
     (case this of
        VUndefined \<Rightarrow> (h, Threw JsTypeError)
      | VNull \<Rightarrow> (h, Threw JsTypeError)
      | VRef a \<Rightarrow> (h, Returned (Value this))
      | VFun f \<Rightarrow> (h, Returned (Value this))
      | VObjectPrototype \<Rightarrow> (h, Returned (Value this))
      | _ \<Rightarrow> undefined)"

text \<open>
  \<^verbatim>\<open>constructor\<close> is \<^verbatim>\<open>Object\<close>, here called as a function: an object argument is returned
  as it is, and no argument, \<^verbatim>\<open>undefined\<close> or \<^verbatim>\<open>null\<close> give a new empty object.
\<close>

definition objectConstructor :: jsfun where
  "objectConstructor this args h =
     (case args of
        [] \<Rightarrow> (h @ [Map.empty], Returned (Value (VRef (length h))))
      | VUndefined # _ \<Rightarrow> (h @ [Map.empty], Returned (Value (VRef (length h))))
      | VNull # _ \<Rightarrow> (h @ [Map.empty], Returned (Value (VRef (length h))))
      | VRef a # _ \<Rightarrow> (h, Returned (Value (VRef a)))
      | VFun f # _ \<Rightarrow> (h, Returned (Value (VFun f)))
      | VObjectPrototype # _ \<Rightarrow> (h, Returned (Value VObjectPrototype))
      | _ \<Rightarrow> undefined)"

text \<open>
  \<^verbatim>\<open>hasOwnProperty\<close>: the argument is first turned into a property key (an object through
  its \<^verbatim>\<open>toString\<close>, here only when that is the built-in), then \<^verbatim>\<open>this\<close> into an object,
  whose own properties are searched.
\<close>

definition toPropertyKey :: "heap \<Rightarrow> val \<Rightarrow> string option" where
  "toPropertyKey h v =
     (case v of
        VStr s \<Rightarrow> Some s
      | VUndefined \<Rightarrow> Some ''undefined''
      | VNull \<Rightarrow> Some ''null''
      | VBool b \<Rightarrow> Some (if b then ''true'' else ''false'')
      | VRef a \<Rightarrow>
          (if getProp h a ''toString'' = VFun (NativeFn ''toString'') then Some ''[object Object]''
           else None)
      | _ \<Rightarrow> None)"

definition objectHasOwnProperty :: jsfun where
  "objectHasOwnProperty this args h =
     (case toPropertyKey h (case args of [] \<Rightarrow> VUndefined | v # _ \<Rightarrow> v) of
        None \<Rightarrow> undefined
      | Some key \<Rightarrow>
          (case this of
             VUndefined \<Rightarrow> (h, Threw JsTypeError)
           | VNull \<Rightarrow> (h, Threw JsTypeError)
           | VRef a \<Rightarrow>
               (h, Returned (Value (VBool (case (h ! a) key of None \<Rightarrow> False | Some _ \<Rightarrow> True))))
           | VObjectPrototype \<Rightarrow>
               (h, Returned (Value (VBool
                  (case objectPrototype key of None \<Rightarrow> False | Some _ \<Rightarrow> True))))
           | _ \<Rightarrow> undefined))"

text \<open>
  What the function values of the test do when called: the two transition functions,
  and the built-ins above. The remaining built-ins are not described; nothing below
  calls them.
\<close>

definition testEnv :: env where
  "testEnv f =
     (case f of
        UserFn n \<Rightarrow> (if n = ''eat'' then eat else rest)
      | NativeFn n \<Rightarrow>
          (if n = ''toString'' then objectToString
           else if n = ''valueOf'' then objectValueOf
           else if n = ''constructor'' then objectConstructor
           else if n = ''hasOwnProperty'' then objectHasOwnProperty
           else undefined))"

definition heap0 :: heap where
  "heap0 = [initialState, testTransitions]"

definition tx :: world where
  "tx = constructor (Some 0) (Some 1) False heap0"

text \<open>
  Examples: a sequence of calls, the test instance after some calls, and mutations made
  by the caller to the two objects it passed to the constructor.
\<close>

definition demoOps :: "op list" where
  "demoOps = [Save, Mutate setHunger, Save, Mutate setEnergy, Rollback, Rollback]"

definition savedOnce :: world where
  "savedOnce = saveState (fst tx) (snd tx)"

definition savedThenEaten :: world where
  "savedThenEaten = snd (fst (runOps [Save, Mutate setHunger] (fst tx) (snd tx)))"

definition oneEach :: world where
  "oneEach = snd (fst (runOps [Save, Mutate setHunger, Save, Rollback] (fst tx) (snd tx)))"

definition twiceRolledBack :: world where
  "twiceRolledBack =
     snd (fst (runOps [Save, Mutate setHunger, Save, Rollback, Rollback] (fst tx) (snd tx)))"

definition externalWrites :: "(addr \<times> (obj \<Rightarrow> obj)) list" where
  "externalWrites = [(0, setHunger), (1, \<lambda>ob. Map.empty), (0, setEnergy)]"

text \<open>
  The wrapped function of the README (\<^verbatim>\<open>eatFunction\<close>), up to its third \<^verbatim>\<open>console.log\<close>:
  \<^verbatim>\<open>saveState(); transition('eat'); rollbackState();\<close> and then the value it prints as
  \<^verbatim>\<open>state.hunger\<close>, which is what this procedure returns.
\<close>

definition eatFunction :: procedure where
  "eatFunction b args w =
     (case b_saveState b (fst w) (snd w) of
        (m1, h1) \<Rightarrow>
          (case b_transition b ''eat'' [] m1 h1 of
             (h2, p) \<Rightarrow>
               (case b_rollbackState b m1 h2 of
                  (Some e, m3, h3) \<Rightarrow> ((m3, h3), Threw e)
                | (None, m3, h3) \<Rightarrow>
                    (case b_state b of
                       VRef a \<Rightarrow> ((m3, h3), Returned (Value (getProp h3 a ''hunger'')))
                     | _ \<Rightarrow> ((m3, h3), Threw JsTypeError)))))"

section \<open>The operations, step by step\<close>

lemma saveState_eq:
  "saveState m h =
     (m\<lparr>stateHistory := stateHistory m @ [length h], redoStack := []\<rparr>, h @ [h ! state m])"
  by (simp add: saveState_def spread_def)

lemma rollbackState_eq:
  "stateHistory m \<noteq> [] \<Longrightarrow>
   rollbackState m h =
     (None,
      m\<lparr>stateHistory := butlast (stateHistory m),
        redoStack := redoStack m @ [length h],
        state := Suc (length h)\<rparr>,
      h @ [h ! state m] @ [(h @ [h ! state m]) ! last (stateHistory m)])"
  by (simp add: rollbackState_def spread_def)

lemma redoState_eq:
  "redoStack m \<noteq> [] \<Longrightarrow>
   redoState m h =
     (None,
      m\<lparr>redoStack := butlast (redoStack m),
        stateHistory := stateHistory m @ [length h],
        state := Suc (length h)\<rparr>,
      h @ [h ! state m] @ [(h @ [h ! state m]) ! last (redoStack m)])"
  by (simp add: redoState_def spread_def)

lemma rollbackState_empty:
  "stateHistory m = [] \<Longrightarrow>
   rollbackState m h = (Some (JsError ''No saved state to rollback to.''), m, h)"
  by (simp add: rollbackState_def)

lemma redoState_empty:
  "redoStack m = [] \<Longrightarrow> redoState m h = (Some (JsError ''No state to redo.''), m, h)"
  by (simp add: redoState_def)

lemma writeObj_other: "a \<noteq> b \<Longrightarrow> writeObj b g h ! a = h ! a"
  by (simp add: writeObj_def)

lemma createTransition_registered:
  assumes "getProp h (transitions m) name = VFun f"
  shows "createTransition env name args m h =
           (case env f (VRef (transitions m)) (VRef (state m) # args) h of
              (h', Threw e) \<Rightarrow> (h', Rejected (catchLogRethrow e))
            | (h', Returned r) \<Rightarrow> (h', Awaiting r))"
  using assms by (simp add: createTransition_def callVal_def)

text \<open>The test instance: the two copies made by the constructor follow the two originals.\<close>

lemma tx_eq:
  "tx = (\<lparr>state = 2, transitions = 3, debug = False, stateHistory = [], redoStack = []\<rparr>,
         [initialState, testTransitions, initialState, testTransitions])"
  by (simp add: tx_def constructor_def spreadArg_def spread_def heap0_def)

section \<open>Rollback restores the saved states, last saved first\<close>

text \<open>
  The invariant of a run: the undo stack ends with the snapshots of the unmatched saves,
  each still holding the state that was current at its save, and none of them is the
  current state object.
\<close>

lemma runOps_refines:
  assumes "state m < length h"
    and "stateHistory m = pre @ hs"
    and "map ((!) h) hs = rev saved"
    and "list_all (\<lambda>a. a < length h \<and> a \<noteq> state m) hs"
    and "expectedRestores ops (h ! state m) saved = Some expected"
  shows "\<exists>m' h'. runOps ops m h = ((None, m', h'), expected)"
  using assms
proof (induction ops arbitrary: m h hs saved expected)
  case Nil
  then show ?case by simp
next
  case (Cons x ops)
  show ?case
  proof (cases x)
    case Save
    let ?m = "m\<lparr>stateHistory := stateHistory m @ [length h], redoStack := []\<rparr>"
    let ?h = "h @ [h ! state m]"
    have old: "\<forall>a\<in>set hs. a < length h \<and> a \<noteq> state m"
      using Cons.prems(4) by (simp add: list_all_iff)
    have 1: "state ?m < length ?h" using Cons.prems(1) by simp
    have 2: "stateHistory ?m = pre @ (hs @ [length h])" using Cons.prems(2) by simp
    have "map ((!) ?h) hs = map ((!) h) hs"
      using old by (simp add: nth_append)
    then have 3: "map ((!) ?h) (hs @ [length h]) = rev ((h ! state m) # saved)"
      using Cons.prems(3) by simp
    have 4: "list_all (\<lambda>a. a < length ?h \<and> a \<noteq> state ?m) (hs @ [length h])"
      using old Cons.prems(1) by (auto simp: list_all_iff)
    have 5: "expectedRestores ops (?h ! state ?m) ((h ! state m) # saved) = Some expected"
      using Cons.prems(5) Cons.prems(1) Save by (simp add: nth_append)
    from Cons.IH [OF 1 2 3 4 5] show ?thesis
      using Save by (simp add: saveState_eq)
  next
    case (Mutate f)
    let ?h = "writeObj (state m) f h"
    have old: "\<forall>a\<in>set hs. a < length h \<and> a \<noteq> state m"
      using Cons.prems(4) by (simp add: list_all_iff)
    have 1: "state m < length ?h" using Cons.prems(1) by (simp add: writeObj_def)
    have "map ((!) ?h) hs = map ((!) h) hs"
      using old by (intro map_cong) (auto simp: writeObj_def)
    then have 3: "map ((!) ?h) hs = rev saved"
      using Cons.prems(3) by simp
    have 4: "list_all (\<lambda>a. a < length ?h \<and> a \<noteq> state m) hs"
      using Cons.prems(4) by (simp add: writeObj_def)
    have 5: "expectedRestores ops (?h ! state m) saved = Some expected"
      using Cons.prems(5) Cons.prems(1) Mutate by (simp add: writeObj_def)
    from Cons.IH [OF 1 Cons.prems(2) 3 4 5] show ?thesis
      using Mutate by simp
  next
    case Rollback
    from Cons.prems(5) Rollback obtain s saved' rest where
      saved: "saved = s # saved'" and
      rest: "expectedRestores ops s saved' = Some rest" and
      expected: "expected = s # rest"
      by (auto split: list.splits)
    from Cons.prems(3) saved obtain hs' a where
      hs: "hs = hs' @ [a]" and hs': "map ((!) h) hs' = rev saved'" and a: "h ! a = s"
      by (cases hs rule: rev_cases) auto
    have old: "\<forall>b\<in>set hs'. b < length h" and alt: "a < length h"
      using Cons.prems(4) hs by (auto simp: list_all_iff)
    let ?m = "m\<lparr>stateHistory := butlast (stateHistory m),
                redoStack := redoStack m @ [length h],
                state := Suc (length h)\<rparr>"
    let ?h = "h @ [h ! state m] @ [(h @ [h ! state m]) ! last (stateHistory m)]"
    have ne: "stateHistory m \<noteq> []" using Cons.prems(2) hs by simp
    have lst: "last (stateHistory m) = a" using Cons.prems(2) hs by simp
    have rb: "rollbackState m h = (None, ?m, ?h)"
      using ne by (rule rollbackState_eq)
    have cur: "?h ! state ?m = s"
      using lst alt a by (simp add: nth_append)
    have 1: "state ?m < length ?h" by simp
    have 2: "stateHistory ?m = pre @ hs'"
      using Cons.prems(2) hs by (simp add: butlast_append)
    have "map ((!) ?h) hs' = map ((!) h) hs'"
      using old by (intro map_cong) (auto simp: nth_append)
    then have 3: "map ((!) ?h) hs' = rev saved'"
      using hs' by simp
    have 4: "list_all (\<lambda>b. b < length ?h \<and> b \<noteq> state ?m) hs'"
      using old by (auto simp: list_all_iff)
    have 5: "expectedRestores ops (?h ! state ?m) saved' = Some rest"
      using rest cur by simp
    from Cons.IH [OF 1 2 3 4 5] obtain m' h' where
      "runOps ops ?m ?h = ((None, m', h'), rest)" by blast
    then show ?thesis
      using Rollback rb cur expected by simp
  qed
qed

text \<open>
  Claim C1. On an instance whose state reference is valid, take any sequence of saves,
  in-place mutations of the state and rollbacks in which every rollback has an earlier
  save of the sequence left to match (so as many rollbacks as unmatched saves, or fewer,
  at every point). Then no call throws, and the properties of the state right after each
  rollback are exactly those the state had at the matching save, the most recent
  unmatched save first.
\<close>

theorem rollbacks_restore_saves_lifo:
  assumes "state m < length h"
    and "expectedRestores ops (h ! state m) [] = Some expected"
  shows "\<exists>m' h'. runOps ops m h = ((None, m', h'), expected)"
  using runOps_refines [of m h "stateHistory m" "[]" "[]" ops expected] assms
  by simp

text \<open>
  On the test instance: save, eat, save, rest, then two rollbacks. The first rollback
  restores the state of the second save, the second that of the first.
\<close>

theorem rollbacks_restore_saves_lifo_witness:
  "state (fst tx) < length (snd tx) \<and>
   expectedRestores demoOps (snd tx ! state (fst tx)) [] =
     Some [setHunger initialState, initialState] \<and>
   runOps demoOps (fst tx) (snd tx) =
     (fst (runOps demoOps (fst tx) (snd tx)), [setHunger initialState, initialState]) \<and>
   fst (fst (runOps demoOps (fst tx) (snd tx))) = None"
proof -
  have v: "state (fst tx) < length (snd tx)"
    by (simp add: tx_eq)
  have e: "expectedRestores demoOps (snd tx ! state (fst tx)) [] =
             Some [setHunger initialState, initialState]"
    by (simp add: demoOps_def tx_eq)
  from rollbacks_restore_saves_lifo [OF v e] obtain m' h' where
    "runOps demoOps (fst tx) (snd tx) = ((None, m', h'), [setHunger initialState, initialState])"
    by blast
  with v e show ?thesis by simp
qed

section \<open>Rollback followed by redo\<close>

lemma round_trip_once:
  assumes "stateHistory m \<noteq> []"
  shows "\<exists>m1 h1 m2 h2.
           rollbackState m h = (None, m1, h1) \<and> redoState m1 h1 = (None, m2, h2) \<and>
           h2 ! state m2 = h ! state m \<and> stateHistory m2 \<noteq> []"
  using assms by (simp add: rollbackState_eq redoState_eq nth_append)

lemma round_trip_many:
  "stateHistory m \<noteq> [] \<Longrightarrow>
   \<exists>m' h'. rollbackRedo n m h = (None, m', h') \<and> h' ! state m' = h ! state m \<and>
           stateHistory m' \<noteq> []"
proof (induction n arbitrary: m h)
  case 0
  then show ?case by simp
next
  case (Suc n)
  from round_trip_once [OF Suc.prems, of h]
  obtain m1 h1 m2 h2 where
    rb: "rollbackState m h = (None, m1, h1)" and rd: "redoState m1 h1 = (None, m2, h2)" and
    eq: "h2 ! state m2 = h ! state m" and ne: "stateHistory m2 \<noteq> []"
    by blast
  from Suc.IH [OF ne, of h2] obtain m' h' where
    "rollbackRedo n m2 h2 = (None, m', h')" "h' ! state m' = h2 ! state m2"
    "stateHistory m' \<noteq> []"
    by blast
  with rb rd eq show ?case by simp
qed

text \<open>
  Claim C2. When the undo stack is not empty, \<^verbatim>\<open>rollbackState()\<close> returns normally, the
  \<^verbatim>\<open>redoState()\<close> that follows returns normally, and the state then has the properties it
  had before the rollback. The same holds after any number \<open>n\<close> of such pairs.
\<close>

theorem rollback_redo_round_trip:
  assumes "stateHistory m \<noteq> []"
  shows "(\<exists>m1 h1 m2 h2.
            rollbackState m h = (None, m1, h1) \<and> redoState m1 h1 = (None, m2, h2) \<and>
            h2 ! state m2 = h ! state m) \<and>
         (\<exists>m' h'. rollbackRedo n m h = (None, m', h') \<and> h' ! state m' = h ! state m)"
  using round_trip_once [OF assms, of h] round_trip_many [OF assms, of n h] by blast

theorem rollback_redo_round_trip_witness:
  "stateHistory (fst savedThenEaten) \<noteq> [] \<and>
   fst (rollbackRedo (Suc (Suc 0)) (fst savedThenEaten) (snd savedThenEaten)) = None \<and>
   snd (snd (rollbackRedo (Suc (Suc 0)) (fst savedThenEaten) (snd savedThenEaten))) !
     state (fst (snd (rollbackRedo (Suc (Suc 0)) (fst savedThenEaten) (snd savedThenEaten)))) =
   setHunger initialState"
proof -
  have w: "savedThenEaten =
             (\<lparr>state = 2, transitions = 3, debug = False, stateHistory = [4], redoStack = []\<rparr>,
              [initialState, testTransitions, setHunger initialState, testTransitions,
               initialState])"
    by (simp add: savedThenEaten_def tx_eq saveState_eq writeObj_def)
  have ne: "stateHistory (fst savedThenEaten) \<noteq> []"
    by (simp add: w)
  from rollback_redo_round_trip [OF ne, of "snd savedThenEaten" "Suc (Suc 0)"]
  obtain m' h' where
    "rollbackRedo (Suc (Suc 0)) (fst savedThenEaten) (snd savedThenEaten) = (None, m', h')"
    "h' ! state m' = snd savedThenEaten ! state (fst savedThenEaten)"
    by blast
  with ne show ?thesis by (simp add: w)
qed

section \<open>Saving clears the redo stack\<close>

lemma runOps_no_rollback:
  "list_all (\<lambda>x. \<not> isRollback x) ops \<Longrightarrow> redoStack m = [] \<Longrightarrow>
   \<exists>m' h'. runOps ops m h = ((None, m', h'), []) \<and> redoStack m' = []"
proof (induction ops arbitrary: m h)
  case Nil
  then show ?case by simp
next
  case (Cons x ops)
  then show ?case
    by (cases x) (simp_all add: saveState_eq)
qed

text \<open>
  Claim C3. \<^verbatim>\<open>saveState()\<close> leaves the redo stack empty, whatever it held. After the save,
  and after any further saves and state mutations but no rollback, \<^verbatim>\<open>redoState()\<close> throws
  \<^verbatim>\<open>Error("No state to redo.")\<close> and changes nothing. (The specification quotes the message
  in lower case and without the full stop.)
\<close>

theorem save_clears_redo:
  assumes "list_all (\<lambda>x. \<not> isRollback x) ops"
    and "saveState m h = (m1, h1)"
    and "runOps ops m1 h1 = ((e, m2, h2), seen)"
  shows "redoStack m1 = [] \<and> e = None \<and>
         redoState m2 h2 = (Some (JsError ''No state to redo.''), m2, h2)"
proof -
  from assms(2) have r1: "redoStack m1 = []"
    by (auto simp: saveState_eq)
  from runOps_no_rollback [OF assms(1) r1, of h1] assms(3)
  have "e = None" and "redoStack m2 = []" by auto
  with r1 show ?thesis by (simp add: redoState_empty)
qed

text \<open>
  An instance on which a redo succeeds; after a save (and a further mutation and save) it
  throws.
\<close>

theorem save_clears_redo_witness:
  "fst (redoState (fst oneEach) (snd oneEach)) = None \<and>
   redoStack (fst (saveState (fst oneEach) (snd oneEach))) = [] \<and>
   fst (redoState
          (fst (snd (fst (runOps [Mutate setEnergy, Save] (fst (saveState (fst oneEach) (snd oneEach)))
             (snd (saveState (fst oneEach) (snd oneEach)))))))
          (snd (snd (fst (runOps [Mutate setEnergy, Save] (fst (saveState (fst oneEach) (snd oneEach)))
             (snd (saveState (fst oneEach) (snd oneEach)))))))) =
     Some (JsError ''No state to redo.'')"
proof -
  let ?s = "saveState (fst oneEach) (snd oneEach)"
  let ?r = "runOps [Mutate setEnergy, Save] (fst ?s) (snd ?s)"
  have before: "fst (redoState (fst oneEach) (snd oneEach)) = None"
    by code_simp
  have ops: "list_all (\<lambda>x. \<not> isRollback x) [Mutate setEnergy, Save]"
    by simp
  have s: "?s = (fst ?s, snd ?s)" by simp
  have r: "?r = ((fst (fst ?r), fst (snd (fst ?r)), snd (snd (fst ?r))), snd ?r)" by simp
  from save_clears_redo [OF ops s r] before show ?thesis by simp
qed

section \<open>Rollback with nothing saved\<close>

text \<open>
  Claim C4. When the undo stack is empty, \<^verbatim>\<open>rollbackState()\<close> throws
  \<^verbatim>\<open>Error("No saved state to rollback to.")\<close>, and the instance (its state reference and
  both stacks) and every object are as before the call. (The specification quotes the
  message in lower case and without the full stop.)
\<close>

theorem rollback_empty_history_fails:
  assumes "stateHistory m = []"
  shows "rollbackState m h = (Some (JsError ''No saved state to rollback to.''), m, h)"
  using assms by (rule rollbackState_empty)

text \<open>The fresh test instance, with no save before.\<close>

theorem rollback_empty_history_fails_witness:
  "stateHistory (fst tx) = [] \<and>
   rollbackState (fst tx) (snd tx) =
     (Some (JsError ''No saved state to rollback to.''), fst tx, snd tx)"
proof -
  have e: "stateHistory (fst tx) = []" by (simp add: tx_eq)
  from rollback_empty_history_fails [OF e, of "snd tx"] e show ?thesis by simp
qed

section \<open>Calling a transition by name\<close>

text \<open>
  A name that is neither a property of the registry nor a property of
  \<^verbatim>\<open>Object.prototype\<close> is rejected with the message that names it, and nothing changes.
\<close>

lemma createTransition_unknown:
  assumes "(h ! transitions m) name = None" and "objectPrototype name = None"
  shows "createTransition env name args m h = (h, Rejected (JsError (notDefinedMessage name)))"
  using assms by (simp add: createTransition_def getProp_def)

text \<open>
  Claim C5 asks that every name absent from the registry be rejected with the error that
  names the transition. On the test instance the name \<^verbatim>\<open>toString\<close> is not in the registry,
  yet \<^verbatim>\<open>context.transitions[name]\<close> finds \<^verbatim>\<open>Object.prototype.toString\<close>, the invoker calls
  it as if it were a transition, and its promise is fulfilled: no error is raised.
\<close>

theorem inherited_name_is_not_rejected:
  "(snd tx ! transitions (fst tx)) ''toString'' = None \<and>
   createTransition testEnv ''toString'' [] (fst tx) (snd tx) =
     (snd tx, Awaiting (Value (VStr ''[object Object]''))) \<and>
   resume (Value (VStr ''[object Object]'')) (snd tx) = (snd tx, Fulfilled)"
  by (simp add: tx_eq testTransitions_def createTransition_def getProp_def objectPrototype_def
      objectPrototypeMethods_def callVal_def testEnv_def objectToString_def resume_def)

section \<open>Stack sizes\<close>

text \<open>
  Claim C6, amended. A rollback that returns normally shrinks the undo stack by exactly
  one and grows the redo stack by exactly one; a redo that returns normally does the
  reverse; a save grows the undo stack by exactly one and leaves the redo stack empty,
  whatever its size was.
\<close>

theorem stack_sizes_per_operation:
  "(fst (rollbackState m h) = None \<longrightarrow>
      length (stateHistory (fst (snd (rollbackState m h)))) + 1 = length (stateHistory m) \<and>
      length (redoStack (fst (snd (rollbackState m h)))) = length (redoStack m) + 1) \<and>
   (fst (redoState m h) = None \<longrightarrow>
      length (redoStack (fst (snd (redoState m h)))) + 1 = length (redoStack m) \<and>
      length (stateHistory (fst (snd (redoState m h)))) = length (stateHistory m) + 1) \<and>
   length (stateHistory (fst (saveState m h))) = length (stateHistory m) + 1 \<and>
   redoStack (fst (saveState m h)) = []"
proof -
  have rb: "fst (rollbackState m h) = None \<Longrightarrow> stateHistory m \<noteq> []"
    by (auto simp: rollbackState_empty)
  have rd: "fst (redoState m h) = None \<Longrightarrow> redoStack m \<noteq> []"
    by (auto simp: redoState_empty)
  show ?thesis
    using rb rd by (auto simp: rollbackState_eq redoState_eq saveState_eq)
qed

text \<open>An instance with one snapshot on each stack: both calls return normally.\<close>

theorem stack_sizes_per_operation_witness:
  "fst (rollbackState (fst oneEach) (snd oneEach)) = None \<and>
   fst (redoState (fst oneEach) (snd oneEach)) = None \<and>
   length (stateHistory (fst oneEach)) = 1 \<and>
   length (redoStack (fst oneEach)) = 1 \<and>
   length (stateHistory (fst (snd (rollbackState (fst oneEach) (snd oneEach))))) = 0 \<and>
   length (redoStack (fst (snd (rollbackState (fst oneEach) (snd oneEach))))) = 2 \<and>
   length (redoStack (fst (snd (redoState (fst oneEach) (snd oneEach))))) = 0 \<and>
   length (stateHistory (fst (snd (redoState (fst oneEach) (snd oneEach))))) = 2"
proof -
  have rb: "fst (rollbackState (fst oneEach) (snd oneEach)) = None"
    by code_simp
  have rd: "fst (redoState (fst oneEach) (snd oneEach)) = None"
    by code_simp
  have u: "length (stateHistory (fst oneEach)) = 1"
    by code_simp
  have r: "length (redoStack (fst oneEach)) = 1"
    by code_simp
  from stack_sizes_per_operation [of "fst oneEach" "snd oneEach"] rb rd u r
  show ?thesis by simp
qed

text \<open>
  As stated, the claim fails for a save: with two snapshots on the redo stack, one save
  changes the size of the redo stack by two.
\<close>

theorem save_changes_redo_size_by_two:
  "length (redoStack (fst twiceRolledBack)) = 2 \<and>
   length (redoStack (fst (saveState (fst twiceRolledBack) (snd twiceRolledBack)))) = 0"
  by code_simp

section \<open>The state object passed to a wrapped function\<close>

text \<open>
  A rollback that returns normally makes \<^verbatim>\<open>this.state\<close> a new object; \<^verbatim>\<open>saveState\<close> keeps
  the reference, and so does a transition, which never assigns a field of the instance.
\<close>

lemma rollbackState_new_state:
  "state m < length h \<Longrightarrow> stateHistory m \<noteq> [] \<Longrightarrow>
   state (fst (snd (rollbackState m h))) \<noteq> state m"
  by (simp add: rollbackState_eq)

lemma redoState_new_state:
  "state m < length h \<Longrightarrow> redoStack m \<noteq> [] \<Longrightarrow>
   state (fst (snd (redoState m h))) \<noteq> state m"
  by (simp add: redoState_eq)

lemma saveState_same_state: "state (fst (saveState m h)) = state m"
  by (simp add: saveState_eq)

text \<open>
  Claim C7 asks that the \<open>state\<close> field of the bundle be the live state of the manager during
  the whole call. \<^verbatim>\<open>wrap\<close> reads \<^verbatim>\<open>context.state\<close> once, when the wrapper is called. In
  the README's \<^verbatim>\<open>eatFunction\<close> the value read as \<^verbatim>\<open>state.hunger\<close> after
  \<^verbatim>\<open>rollbackState()\<close> is still \<^verbatim>\<open>satisfied\<close>, while the state of the manager is back to
  \<^verbatim>\<open>hungry\<close>.
\<close>

theorem wrapped_state_is_stale_after_rollback:
  "snd (wrap testEnv eatFunction [] tx) = Awaiting (Value (VStr ''satisfied'')) \<and>
   getProp (snd (fst (wrap testEnv eatFunction [] tx)))
     (state (fst (fst (wrap testEnv eatFunction [] tx)))) ''hunger'' = VStr ''hungry''"
  by (simp add: wrap_def eatFunction_def tx_eq saveState_eq rollbackState_eq createTransition_def
      getProp_def testTransitions_def initialState_def callVal_def testEnv_def eat_def
      setHunger_def writeObj_def)

section \<open>Live state, independent snapshots\<close>

lemma wellformed_iff:
  "wellformed m h \<longleftrightarrow>
     state m < length h \<and>
     (\<forall>a\<in>set (stateHistory m) \<union> set (redoStack m). a < length h \<and> a \<noteq> state m)"
  by (simp add: wellformed_def list_all_iff)

lemma wellformed_constructor:
  "wellformed (fst (constructor i t d h)) (snd (constructor i t d h))"
  by (cases i; cases t) (simp_all add: constructor_def spreadArg_def spread_def wellformed_def)

lemma wellformed_saveState:
  assumes "wellformed m h"
  shows "wellformed (fst (saveState m h)) (snd (saveState m h))"
proof -
  from assms have s: "state m < length h"
    and old: "\<And>a. a \<in> set (stateHistory m) \<Longrightarrow> a < length h \<and> a \<noteq> state m"
    by (simp_all add: wellformed_iff)
  show ?thesis
    unfolding wellformed_iff saveState_eq using s old by (fastforce intro: less_SucI)
qed

lemma wellformed_rollbackState:
  assumes "wellformed m h"
  shows "wellformed (fst (snd (rollbackState m h))) (snd (snd (rollbackState m h)))"
proof (cases "stateHistory m = []")
  case True
  with assms show ?thesis by (simp add: rollbackState_empty)
next
  case False
  from assms have
    old: "\<And>a. a \<in> set (stateHistory m) \<Longrightarrow> a < length h"
    and red: "\<And>a. a \<in> set (redoStack m) \<Longrightarrow> a < length h"
    by (simp_all add: wellformed_iff)
  have "\<And>a. a \<in> set (butlast (stateHistory m)) \<Longrightarrow> a < length h"
    using old by (blast dest: in_set_butlastD)
  then show ?thesis
    unfolding wellformed_iff rollbackState_eq [OF False] using red by fastforce
qed

lemma wellformed_redoState:
  assumes "wellformed m h"
  shows "wellformed (fst (snd (redoState m h))) (snd (snd (redoState m h)))"
proof (cases "redoStack m = []")
  case True
  with assms show ?thesis by (simp add: redoState_empty)
next
  case False
  from assms have
    old: "\<And>a. a \<in> set (stateHistory m) \<Longrightarrow> a < length h"
    and red: "\<And>a. a \<in> set (redoStack m) \<Longrightarrow> a < length h"
    by (simp_all add: wellformed_iff)
  have "\<And>a. a \<in> set (butlast (redoStack m)) \<Longrightarrow> a < length h"
    using red by (blast dest: in_set_butlastD)
  then show ?thesis
    unfolding wellformed_iff redoState_eq [OF False] using old by fastforce
qed

lemma wellformed_writeObj:
  "wellformed m h \<Longrightarrow> wellformed m (writeObj a g h)"
  by (simp add: wellformed_def writeObj_def)

lemma snapshots_untouched:
  assumes "wellformed m h"
  shows "map ((!) (writeObj (state m) g h)) (stateHistory m @ redoStack m) =
         map ((!) h) (stateHistory m @ redoStack m)"
proof (rule map_cong [OF refl])
  fix a assume "a \<in> set (stateHistory m @ redoStack m)"
  with assms have "a \<noteq> state m" by (simp add: wellformed_iff)
  then show "writeObj (state m) g h ! a = h ! a" by (rule writeObj_other)
qed

lemma createTransition_heap:
  assumes "getProp h (transitions m) name = VFun f"
  shows "fst (createTransition env name args m h) =
           fst (env f (VRef (transitions m)) (VRef (state m) # args) h)"
  using assms by (simp add: createTransition_registered split: prod.splits outcome.splits)

lemma resume_heap: "fst (resume (Pending k) s) = fst (k s)"
  by (simp add: resume_def split: prod.splits sum.splits)

lemma inplace_now:
  assumes wf: "wellformed m h"
    and reg: "getProp h (transitions m) name = VFun f"
    and eff: "\<And>this a h0. fst (env f this (VRef a # args) h0) = writeObj a g h0"
  shows "fst (createTransition env name args m h) ! state m = g (h ! state m)"
    and "map ((!) (fst (createTransition env name args m h))) (stateHistory m @ redoStack m) =
           map ((!) h) (stateHistory m @ redoStack m)"
    and "wellformed m (fst (createTransition env name args m h))"
proof -
  have ct: "fst (createTransition env name args m h) = writeObj (state m) g h"
    using reg eff by (simp add: createTransition_heap)
  have "state m < length h" using wf by (simp add: wellformed_def)
  then show "fst (createTransition env name args m h) ! state m = g (h ! state m)"
    by (simp add: ct writeObj_def)
  show "map ((!) (fst (createTransition env name args m h))) (stateHistory m @ redoStack m) =
           map ((!) h) (stateHistory m @ redoStack m)"
    unfolding ct using wf by (rule snapshots_untouched)
  show "wellformed m (fst (createTransition env name args m h))"
    unfolding ct using wf by (rule wellformed_writeObj)
qed

lemma inplace_later:
  assumes reg: "getProp h (transitions m) name = VFun f"
    and pend: "\<And>this a h0. env f this (VRef a # args) h0 =
                 (h0, Returned (Pending (\<lambda>h1. (writeObj a g h1, r))))"
  shows "createTransition env name args m h =
           (h, Awaiting (Pending (\<lambda>h1. (writeObj (state m) g h1, r))))"
    and "wellformed m h1 \<Longrightarrow>
           fst (resume (Pending (\<lambda>h1. (writeObj (state m) g h1, r))) h1) ! state m =
             g (h1 ! state m) \<and>
           map ((!) (fst (resume (Pending (\<lambda>h1. (writeObj (state m) g h1, r))) h1)))
               (stateHistory m @ redoStack m) =
             map ((!) h1) (stateHistory m @ redoStack m) \<and>
           wellformed m (fst (resume (Pending (\<lambda>h1. (writeObj (state m) g h1, r))) h1))"
proof -
  show "createTransition env name args m h =
           (h, Awaiting (Pending (\<lambda>h1. (writeObj (state m) g h1, r))))"
    using reg by (simp add: createTransition_registered pend)
next
  assume wf: "wellformed m h1"
  have rs: "fst (resume (Pending (\<lambda>h1. (writeObj (state m) g h1, r))) h1) =
              writeObj (state m) g h1"
    by (simp add: resume_heap)
  have "state m < length h1" using wf by (simp add: wellformed_def)
  then have "writeObj (state m) g h1 ! state m = g (h1 ! state m)"
    by (simp add: writeObj_def)
  then show "fst (resume (Pending (\<lambda>h1. (writeObj (state m) g h1, r))) h1) ! state m =
             g (h1 ! state m) \<and>
           map ((!) (fst (resume (Pending (\<lambda>h1. (writeObj (state m) g h1, r))) h1)))
               (stateHistory m @ redoStack m) =
             map ((!) h1) (stateHistory m @ redoStack m) \<and>
           wellformed m (fst (resume (Pending (\<lambda>h1. (writeObj (state m) g h1, r))) h1))"
    unfolding rs using snapshots_untouched [OF wf, of g] wellformed_writeObj [OF wf, of "state m" g]
    by simp
qed

lemma rollbackState_copies:
  assumes "wellformed m h" and "stateHistory m \<noteq> []"
  shows "rollbackState m h =
     (None,
      m\<lparr>stateHistory := butlast (stateHistory m),
        redoStack := redoStack m @ [length h],
        state := Suc (length h)\<rparr>,
      h @ [h ! state m, h ! last (stateHistory m)])"
proof -
  have "last (stateHistory m) \<in> set (stateHistory m)" using assms(2) by simp
  with assms(1) have "last (stateHistory m) < length h" by (simp add: wellformed_iff)
  then show ?thesis using assms(2) by (simp add: rollbackState_eq nth_append)
qed

lemma redoState_copies:
  assumes "wellformed m h" and "redoStack m \<noteq> []"
  shows "redoState m h =
     (None,
      m\<lparr>redoStack := butlast (redoStack m),
        stateHistory := stateHistory m @ [length h],
        state := Suc (length h)\<rparr>,
      h @ [h ! state m, h ! last (redoStack m)])"
proof -
  have "last (redoStack m) \<in> set (redoStack m)" using assms(2) by simp
  with assms(1) have "last (redoStack m) < length h" by (simp add: wellformed_iff)
  then show ?thesis using assms(2) by (simp add: redoState_eq nth_append)
qed

text \<open>
  Claim C8. On a well-formed instance, for every registered transition function, whatever
  it returns or throws:

  \<^item> the invoker calls it on the heap as it is, with the reference to the state object of
    the manager as first argument, and the heap the function leaves is the heap the
    invoker leaves; no copy is made;
  \<^item> if the function mutates in place, by \<open>g\<close>, whichever object it receives (and then
    returns a value, returns a pending computation or throws), the state of the manager
    afterwards has the properties \<open>g\<close> gives it;
  \<^item> if the function returns a pending computation that, when it settles, mutates by \<open>g\<close>
    the object the function received (as \<^verbatim>\<open>rest\<close> does), the invoker is suspended on it, and
    once it settles the state of the manager has the properties \<open>g\<close> gives it;
  \<^item> \<^verbatim>\<open>saveState\<close> pushes a new object holding the properties of the current state;
    \<^verbatim>\<open>rollbackState\<close> and \<^verbatim>\<open>redoState\<close> push a new object holding the properties of the
    current state and make a new object, holding the properties of the popped snapshot,
    the state; no existing object is changed;
  \<^item> any in-place mutation of the current state object, by the transitions above or by
    anyone, leaves the properties of every snapshot on both stacks as they are;
  \<^item> the instance the constructor makes is well formed, and the transitions,
    \<^verbatim>\<open>saveState\<close>, \<^verbatim>\<open>rollbackState\<close> and \<^verbatim>\<open>redoState\<close> keep it so.
\<close>

theorem live_state_and_independent_snapshots:
  assumes wf: "wellformed m h"
    and reg: "getProp h (transitions m) name = VFun f"
  shows
   "createTransition env name args m h =
      (case env f (VRef (transitions m)) (VRef (state m) # args) h of
         (h', Threw e) \<Rightarrow> (h', Rejected (catchLogRethrow e))
       | (h', Returned r) \<Rightarrow> (h', Awaiting r)) \<and>
    ((\<forall>this a h0. fst (env f this (VRef a # args) h0) = writeObj a g h0) \<longrightarrow>
       fst (createTransition env name args m h) ! state m = g (h ! state m) \<and>
       map ((!) (fst (createTransition env name args m h))) (stateHistory m @ redoStack m) =
         map ((!) h) (stateHistory m @ redoStack m) \<and>
       wellformed m (fst (createTransition env name args m h))) \<and>
    ((\<forall>this a h0. env f this (VRef a # args) h0 =
         (h0, Returned (Pending (\<lambda>h1. (writeObj a g h1, r))))) \<longrightarrow>
       createTransition env name args m h =
         (h, Awaiting (Pending (\<lambda>h1. (writeObj (state m) g h1, r)))) \<and>
       (\<forall>h1. wellformed m h1 \<longrightarrow>
          fst (resume (Pending (\<lambda>h1. (writeObj (state m) g h1, r))) h1) ! state m =
            g (h1 ! state m) \<and>
          map ((!) (fst (resume (Pending (\<lambda>h1. (writeObj (state m) g h1, r))) h1)))
              (stateHistory m @ redoStack m) =
            map ((!) h1) (stateHistory m @ redoStack m) \<and>
          wellformed m (fst (resume (Pending (\<lambda>h1. (writeObj (state m) g h1, r))) h1)))) \<and>
    saveState m h =
      (m\<lparr>stateHistory := stateHistory m @ [length h], redoStack := []\<rparr>, h @ [h ! state m]) \<and>
    (stateHistory m \<noteq> [] \<longrightarrow>
       rollbackState m h =
         (None,
          m\<lparr>stateHistory := butlast (stateHistory m),
            redoStack := redoStack m @ [length h],
            state := Suc (length h)\<rparr>,
          h @ [h ! state m, h ! last (stateHistory m)])) \<and>
    (redoStack m \<noteq> [] \<longrightarrow>
       redoState m h =
         (None,
          m\<lparr>redoStack := butlast (redoStack m),
            stateHistory := stateHistory m @ [length h],
            state := Suc (length h)\<rparr>,
          h @ [h ! state m, h ! last (redoStack m)])) \<and>
    (\<forall>g'. map ((!) (writeObj (state m) g' h)) (stateHistory m @ redoStack m) =
            map ((!) h) (stateHistory m @ redoStack m)) \<and>
    wellformed (fst (constructor i t d hc)) (snd (constructor i t d hc)) \<and>
    wellformed (fst (saveState m h)) (snd (saveState m h)) \<and>
    wellformed (fst (snd (rollbackState m h))) (snd (snd (rollbackState m h))) \<and>
    wellformed (fst (snd (redoState m h))) (snd (snd (redoState m h)))"
proof (intro conjI impI allI)
  show "createTransition env name args m h =
      (case env f (VRef (transitions m)) (VRef (state m) # args) h of
         (h', Threw e) \<Rightarrow> (h', Rejected (catchLogRethrow e))
       | (h', Returned r) \<Rightarrow> (h', Awaiting r))"
    using reg by (rule createTransition_registered)
next
  assume eff: "\<forall>this a h0. fst (env f this (VRef a # args) h0) = writeObj a g h0"
  then have eff': "\<And>this a h0. fst (env f this (VRef a # args) h0) = writeObj a g h0"
    by blast
  show "fst (createTransition env name args m h) ! state m = g (h ! state m)"
    using wf reg eff' by (rule inplace_now(1))
  show "map ((!) (fst (createTransition env name args m h))) (stateHistory m @ redoStack m) =
         map ((!) h) (stateHistory m @ redoStack m)"
    using wf reg eff' by (rule inplace_now(2))
  show "wellformed m (fst (createTransition env name args m h))"
    using wf reg eff' by (rule inplace_now(3))
next
  assume "\<forall>this a h0. env f this (VRef a # args) h0 =
            (h0, Returned (Pending (\<lambda>h1. (writeObj a g h1, r))))"
  then have pend: "\<And>this a h0. env f this (VRef a # args) h0 =
            (h0, Returned (Pending (\<lambda>h1. (writeObj a g h1, r))))"
    by blast
  show "createTransition env name args m h =
         (h, Awaiting (Pending (\<lambda>h1. (writeObj (state m) g h1, r))))"
    using reg pend by (rule inplace_later(1))
  fix h1 assume wf1: "wellformed m h1"
  from inplace_later(2) [of h m name f env args g r h1, OF reg pend wf1]
  show "fst (resume (Pending (\<lambda>h1. (writeObj (state m) g h1, r))) h1) ! state m =
            g (h1 ! state m)"
    and "map ((!) (fst (resume (Pending (\<lambda>h1. (writeObj (state m) g h1, r))) h1)))
              (stateHistory m @ redoStack m) =
            map ((!) h1) (stateHistory m @ redoStack m)"
    and "wellformed m (fst (resume (Pending (\<lambda>h1. (writeObj (state m) g h1, r))) h1))"
    by simp_all
next
  show "saveState m h =
      (m\<lparr>stateHistory := stateHistory m @ [length h], redoStack := []\<rparr>, h @ [h ! state m])"
    by (rule saveState_eq)
next
  assume "stateHistory m \<noteq> []"
  with wf show "rollbackState m h =
         (None,
          m\<lparr>stateHistory := butlast (stateHistory m),
            redoStack := redoStack m @ [length h],
            state := Suc (length h)\<rparr>,
          h @ [h ! state m, h ! last (stateHistory m)])"
    by (rule rollbackState_copies)
next
  assume "redoStack m \<noteq> []"
  with wf show "redoState m h =
         (None,
          m\<lparr>redoStack := butlast (redoStack m),
            stateHistory := stateHistory m @ [length h],
            state := Suc (length h)\<rparr>,
          h @ [h ! state m, h ! last (redoStack m)])"
    by (rule redoState_copies)
next
  fix g'
  show "map ((!) (writeObj (state m) g' h)) (stateHistory m @ redoStack m) =
            map ((!) h) (stateHistory m @ redoStack m)"
    using wf by (rule snapshots_untouched)
next
  show "wellformed (fst (constructor i t d hc)) (snd (constructor i t d hc))"
    by (rule wellformed_constructor)
  show "wellformed (fst (saveState m h)) (snd (saveState m h))"
    using wf by (rule wellformed_saveState)
  show "wellformed (fst (snd (rollbackState m h))) (snd (snd (rollbackState m h)))"
    using wf by (rule wellformed_rollbackState)
  show "wellformed (fst (snd (redoState m h))) (snd (snd (redoState m h)))"
    using wf by (rule wellformed_redoState)
qed


text \<open>
  The test instance after one save. \<^verbatim>\<open>eat\<close> changes the state of the manager at once;
  \<^verbatim>\<open>rest\<close> leaves the heap as it is when the invoker returns and changes the state of the
  manager when its timer fires; in both cases the snapshot on the undo stack still holds
  the initial state. A rollback on this instance, and a redo on the instance with one
  snapshot on each stack, push and install new objects.
\<close>

theorem live_state_and_independent_snapshots_witness:
  "wellformed (fst savedOnce) (snd savedOnce) \<and>
   stateHistory (fst savedOnce) = [4] \<and>
   snd savedOnce ! state (fst savedOnce) = initialState \<and>
   fst (createTransition testEnv ''eat'' [] (fst savedOnce) (snd savedOnce)) ! state (fst savedOnce) =
     setHunger initialState \<and>
   map ((!) (fst (createTransition testEnv ''eat'' [] (fst savedOnce) (snd savedOnce)))) [4] =
     [initialState] \<and>
   fst (createTransition testEnv ''rest'' [] (fst savedOnce) (snd savedOnce)) = snd savedOnce \<and>
   fst (resume (Pending (\<lambda>h1. (writeObj (state (fst savedOnce)) setEnergy h1, Inr VUndefined)))
          (snd savedOnce)) ! state (fst savedOnce) = setEnergy initialState \<and>
   map ((!) (fst (resume (Pending (\<lambda>h1. (writeObj (state (fst savedOnce)) setEnergy h1, Inr VUndefined)))
          (snd savedOnce)))) [4] = [initialState] \<and>
   rollbackState (fst savedOnce) (snd savedOnce) =
     (None,
      \<lparr>state = 6, transitions = 3, debug = False, stateHistory = [], redoStack = [5]\<rparr>,
      [initialState, testTransitions, initialState, testTransitions, initialState,
       initialState, initialState]) \<and>
   wellformed (fst oneEach) (snd oneEach) \<and>
   redoState (fst oneEach) (snd oneEach) =
     (None,
      \<lparr>state = 9, transitions = 3, debug = False, stateHistory = [4, 8], redoStack = []\<rparr>,
      [initialState, testTransitions, setHunger initialState, testTransitions, initialState,
       setHunger initialState, setHunger initialState, setHunger initialState,
       setHunger initialState, setHunger initialState])"
proof -
  have w: "savedOnce =
             (\<lparr>state = 2, transitions = 3, debug = False, stateHistory = [4], redoStack = []\<rparr>,
              [initialState, testTransitions, initialState, testTransitions, initialState])"
    by (simp add: savedOnce_def tx_eq saveState_eq)
  have o: "oneEach =
             (\<lparr>state = 7, transitions = 3, debug = False, stateHistory = [4], redoStack = [6]\<rparr>,
              [initialState, testTransitions, setHunger initialState, testTransitions,
               initialState, setHunger initialState, setHunger initialState,
               setHunger initialState])"
    by (simp add: oneEach_def tx_eq saveState_eq rollbackState_eq writeObj_def)
  have wf: "wellformed (fst savedOnce) (snd savedOnce)"
    by (simp add: w wellformed_def)
  have wfo: "wellformed (fst oneEach) (snd oneEach)"
    by (simp add: o wellformed_def)
  have regE: "getProp (snd savedOnce) (transitions (fst savedOnce)) ''eat'' = VFun (UserFn ''eat'')"
    by (simp add: w getProp_def testTransitions_def)
  have regR: "getProp (snd savedOnce) (transitions (fst savedOnce)) ''rest'' = VFun (UserFn ''rest'')"
    by (simp add: w getProp_def testTransitions_def)
  have regO: "getProp (snd oneEach) (transitions (fst oneEach)) ''eat'' = VFun (UserFn ''eat'')"
    by (simp add: o getProp_def testTransitions_def)
  have effE: "\<forall>this a h0. fst (testEnv (UserFn ''eat'') this (VRef a # []) h0) = writeObj a setHunger h0"
    by (simp add: testEnv_def eat_def)
  have pendR: "\<forall>this a h0. testEnv (UserFn ''rest'') this (VRef a # []) h0 =
                 (h0, Returned (Pending (\<lambda>h1. (writeObj a setEnergy h1, Inr VUndefined))))"
    by (simp add: testEnv_def rest_def)
  have neS: "stateHistory (fst savedOnce) \<noteq> []" by (simp add: w)
  have neO: "redoStack (fst oneEach) \<noteq> []" by (simp add: o)
  note E = live_state_and_independent_snapshots
             [where env = testEnv and f = "UserFn ''eat''" and g = setHunger
                and m = "fst savedOnce" and h = "snd savedOnce" and name = "''eat''"
                and args = "[]", OF wf regE]
  note R = live_state_and_independent_snapshots
             [where env = testEnv and f = "UserFn ''rest''" and g = setEnergy
                and r = "Inr VUndefined"
                and m = "fst savedOnce" and h = "snd savedOnce" and name = "''rest''"
                and args = "[]", OF wf regR]
  note O = live_state_and_independent_snapshots
             [where env = testEnv and f = "UserFn ''eat''"
                and m = "fst oneEach" and h = "snd oneEach" and name = "''eat''"
                and args = "[]", OF wfo regO]
  from E effE have e1:
    "fst (createTransition testEnv ''eat'' [] (fst savedOnce) (snd savedOnce)) ! state (fst savedOnce) =
       setHunger (snd savedOnce ! state (fst savedOnce))"
    and e2: "map ((!) (fst (createTransition testEnv ''eat'' [] (fst savedOnce) (snd savedOnce))))
               (stateHistory (fst savedOnce) @ redoStack (fst savedOnce)) =
             map ((!) (snd savedOnce)) (stateHistory (fst savedOnce) @ redoStack (fst savedOnce))"
    by blast+
  from R pendR have r1:
    "createTransition testEnv ''rest'' [] (fst savedOnce) (snd savedOnce) =
       (snd savedOnce,
        Awaiting (Pending (\<lambda>h1. (writeObj (state (fst savedOnce)) setEnergy h1, Inr VUndefined))))"
    and r2: "\<forall>h1. wellformed (fst savedOnce) h1 \<longrightarrow>
       fst (resume (Pending (\<lambda>h1. (writeObj (state (fst savedOnce)) setEnergy h1, Inr VUndefined))) h1) !
         state (fst savedOnce) = setEnergy (h1 ! state (fst savedOnce)) \<and>
       map ((!) (fst (resume (Pending (\<lambda>h1. (writeObj (state (fst savedOnce)) setEnergy h1, Inr VUndefined))) h1)))
           (stateHistory (fst savedOnce) @ redoStack (fst savedOnce)) =
         map ((!) h1) (stateHistory (fst savedOnce) @ redoStack (fst savedOnce)) \<and>
       wellformed (fst savedOnce)
         (fst (resume (Pending (\<lambda>h1. (writeObj (state (fst savedOnce)) setEnergy h1, Inr VUndefined))) h1))"
    by blast+
  from r2 wf have r3:
    "fst (resume (Pending (\<lambda>h1. (writeObj (state (fst savedOnce)) setEnergy h1, Inr VUndefined)))
            (snd savedOnce)) ! state (fst savedOnce) =
       setEnergy (snd savedOnce ! state (fst savedOnce))"
    and r4: "map ((!) (fst (resume (Pending (\<lambda>h1. (writeObj (state (fst savedOnce)) setEnergy h1, Inr VUndefined)))
            (snd savedOnce))))
           (stateHistory (fst savedOnce) @ redoStack (fst savedOnce)) =
         map ((!) (snd savedOnce)) (stateHistory (fst savedOnce) @ redoStack (fst savedOnce))"
    by blast+
  from E neS have rb:
    "rollbackState (fst savedOnce) (snd savedOnce) =
       (None,
        (fst savedOnce)\<lparr>stateHistory := butlast (stateHistory (fst savedOnce)),
          redoStack := redoStack (fst savedOnce) @ [length (snd savedOnce)],
          state := Suc (length (snd savedOnce))\<rparr>,
        snd savedOnce @ [snd savedOnce ! state (fst savedOnce),
                         snd savedOnce ! last (stateHistory (fst savedOnce))])"
    by blast
  from O neO have rd:
    "redoState (fst oneEach) (snd oneEach) =
       (None,
        (fst oneEach)\<lparr>redoStack := butlast (redoStack (fst oneEach)),
          stateHistory := stateHistory (fst oneEach) @ [length (snd oneEach)],
          state := Suc (length (snd oneEach))\<rparr>,
        snd oneEach @ [snd oneEach ! state (fst oneEach),
                       snd oneEach ! last (redoStack (fst oneEach))])"
    by blast
  have c1: "stateHistory (fst savedOnce) = [4]" and c2: "snd savedOnce ! state (fst savedOnce) = initialState"
    by (simp_all add: w)
  have e3: "fst (createTransition testEnv ''eat'' [] (fst savedOnce) (snd savedOnce)) !
              state (fst savedOnce) = setHunger initialState"
    using e1 by (simp add: c2)
  have e4: "map ((!) (fst (createTransition testEnv ''eat'' [] (fst savedOnce) (snd savedOnce)))) [4] =
              [initialState]"
    using e2 by (simp add: w)
  have r5: "fst (createTransition testEnv ''rest'' [] (fst savedOnce) (snd savedOnce)) = snd savedOnce"
    using r1 by simp
  have r6: "fst (resume (Pending (\<lambda>h1. (writeObj (state (fst savedOnce)) setEnergy h1, Inr VUndefined)))
                   (snd savedOnce)) ! state (fst savedOnce) = setEnergy initialState"
    using r3 by (simp add: c2)
  have r7: "map ((!) (fst (resume (Pending (\<lambda>h1. (writeObj (state (fst savedOnce)) setEnergy h1, Inr VUndefined)))
                   (snd savedOnce)))) [4] = [initialState]"
    using r4 by (simp add: w)
  have rb': "rollbackState (fst savedOnce) (snd savedOnce) =
     (None,
      \<lparr>state = 6, transitions = 3, debug = False, stateHistory = [], redoStack = [5]\<rparr>,
      [initialState, testTransitions, initialState, testTransitions, initialState,
       initialState, initialState])"
    using rb by (simp add: w)
  have rd': "redoState (fst oneEach) (snd oneEach) =
     (None,
      \<lparr>state = 9, transitions = 3, debug = False, stateHistory = [4, 8], redoStack = []\<rparr>,
      [initialState, testTransitions, setHunger initialState, testTransitions, initialState,
       setHunger initialState, setHunger initialState, setHunger initialState,
       setHunger initialState, setHunger initialState])"
    using rd by (simp add: o)
  from wf c1 c2 e3 e4 r5 r6 r7 rb' wfo rd' show ?thesis
    by (intro conjI)
qed

section \<open>The constructor copies its arguments\<close>

lemma writeAll_other:
  "list_all (\<lambda>w. fst w \<noteq> b) ws \<Longrightarrow> writeAll ws h ! b = h ! b"
  by (induction ws h rule: writeAll.induct) (simp_all add: writeObj_def)

text \<open>
  Claim C9. The constructor is given references to an initial state object and to a
  registry object. The state and the registry of the new instance are new objects, other
  than the two originals; they have the properties the originals had at construction,
  and keep them whatever the caller later does to the properties of the originals:
  adding, removing or reassigning, in any number and order. Both stacks start empty.
\<close>

theorem constructor_copies_are_independent:
  assumes "i < length h" and "t < length h"
    and "list_all (\<lambda>w. fst w = i \<or> fst w = t) ws"
  shows "state (fst (constructor (Some i) (Some t) d h)) \<notin> {i, t} \<and>
         transitions (fst (constructor (Some i) (Some t) d h)) \<notin> {i, t} \<and>
         snd (constructor (Some i) (Some t) d h) !
           state (fst (constructor (Some i) (Some t) d h)) = h ! i \<and>
         snd (constructor (Some i) (Some t) d h) !
           transitions (fst (constructor (Some i) (Some t) d h)) = h ! t \<and>
         writeAll ws (snd (constructor (Some i) (Some t) d h)) !
           state (fst (constructor (Some i) (Some t) d h)) = h ! i \<and>
         writeAll ws (snd (constructor (Some i) (Some t) d h)) !
           transitions (fst (constructor (Some i) (Some t) d h)) = h ! t \<and>
         stateHistory (fst (constructor (Some i) (Some t) d h)) = [] \<and>
         redoStack (fst (constructor (Some i) (Some t) d h)) = []"
proof -
  have c: "constructor (Some i) (Some t) d h =
             (\<lparr>state = length h, transitions = Suc (length h), debug = d,
               stateHistory = [], redoStack = []\<rparr>, h @ [h ! i] @ [(h @ [h ! i]) ! t])"
    by (simp add: constructor_def spreadArg_def spread_def)
  have s: "list_all (\<lambda>w. fst w \<noteq> length h) ws"
    using assms by (auto simp: list_all_iff)
  have r: "list_all (\<lambda>w. fst w \<noteq> Suc (length h)) ws"
    using assms by (auto simp: list_all_iff)
  show ?thesis
    using assms(1,2) by (simp add: c writeAll_other [OF s] writeAll_other [OF r] nth_append)
qed

text \<open>
  The test instance: the caller then sets \<^verbatim>\<open>hunger\<close> and \<^verbatim>\<open>energy\<close> on the original state
  object and empties the original registry.
\<close>

theorem constructor_copies_are_independent_witness:
  "(0::nat) < length heap0 \<and> (1::nat) < length heap0 \<and>
   list_all (\<lambda>w. fst w = 0 \<or> fst w = 1) externalWrites \<and>
   state (fst tx) = 2 \<and> transitions (fst tx) = 3 \<and>
   writeAll externalWrites (snd tx) ! 0 = setEnergy (setHunger initialState) \<and>
   writeAll externalWrites (snd tx) ! state (fst tx) = initialState \<and>
   writeAll externalWrites (snd tx) ! transitions (fst tx) = testTransitions"
proof -
  have i: "(0::nat) < length heap0" and t: "(1::nat) < length heap0"
    by (simp_all add: heap0_def)
  have ws: "list_all (\<lambda>w. fst w = 0 \<or> fst w = 1) externalWrites"
    by (simp add: externalWrites_def)
  have orig: "writeAll externalWrites (snd tx) ! 0 = setEnergy (setHunger initialState)"
    by (simp add: externalWrites_def tx_eq writeObj_def)
  have refs: "state (fst tx) = 2 \<and> transitions (fst tx) = 3"
    by (simp add: tx_eq)
  from constructor_copies_are_independent [OF i t ws, of False] i t ws orig refs
  show ?thesis by (simp add: tx_def heap0_def)
qed

section \<open>A synchronous transition is applied before the invoker returns\<close>

text \<open>
  Claim C10. Let \<open>name\<close> be registered with a function that completes synchronously: called
  with the state of the manager it returns a plain value \<open>v\<close> and leaves the heap \<open>h'\<close>.
  Then the call of the invoker itself returns with the heap \<open>h'\<close>: the mutation is there
  while the promise of the invoker is still pending, and resuming the invoker later
  fulfils the promise and changes nothing more.
\<close>

theorem synchronous_transition_applies_before_return:
  assumes "getProp h (transitions m) name = VFun f"
    and "env f (VRef (transitions m)) (VRef (state m) # args) h = (h', Returned (Value v))"
  shows "createTransition env name args m h = (h', Awaiting (Value v)) \<and>
         resume (Value v) h' = (h', Fulfilled)"
  using assms by (simp add: createTransition_registered resume_def)

text \<open>
  The test \<^verbatim>\<open>synchronous transition modifies state immediately\<close>:
  \<^verbatim>\<open>tx.createTransition()('eat')\<close> is not awaited, and \<^verbatim>\<open>tx.state.hunger\<close> is
  \<^verbatim>\<open>satisfied\<close> right after the call.
\<close>

theorem synchronous_transition_applies_before_return_witness:
  "getProp (snd tx) (transitions (fst tx)) ''eat'' = VFun (UserFn ''eat'') \<and>
   snd (createTransition testEnv ''eat'' [] (fst tx) (snd tx)) = Awaiting (Value VUndefined) \<and>
   getProp (fst (createTransition testEnv ''eat'' [] (fst tx) (snd tx))) (state (fst tx)) ''hunger'' =
     VStr ''satisfied''"
proof -
  have reg: "getProp (snd tx) (transitions (fst tx)) ''eat'' = VFun (UserFn ''eat'')"
    by (simp add: tx_eq getProp_def testTransitions_def)
  have call: "testEnv (UserFn ''eat'') (VRef (transitions (fst tx))) (VRef (state (fst tx)) # [])
                (snd tx) =
              (writeObj (state (fst tx)) setHunger (snd tx), Returned (Value VUndefined))"
    by (simp add: testEnv_def eat_def)
  from synchronous_transition_applies_before_return
         [where env = testEnv and f = "UserFn ''eat''" and m = "fst tx" and h = "snd tx"
            and name = "''eat''" and args = "[]", OF reg call]
       reg
  show ?thesis by (simp add: tx_eq writeObj_def getProp_def setHunger_def)
qed

end
